theory Spec2Isabelle
  imports Main "HOL-Library.AList"
begin

section \<open>The modal registry of \<open>overmind/factories.ts\<close>\<close>

text \<open>
  The development embeds \<open>createModals\<close> (factories.ts, lines 169--244): the state object it
  builds, the \<open>open\<close> and \<open>close\<close> actions of every modal, and the \<open>resolver\<close> variable
  that each call of \<open>createModal\<close> closes over.

  What JavaScript leaves implicit is made explicit here:
  \<^item> values are a datatype with the falsy values that \<open>||\<close> distinguishes; numbers are
    integers plus \<open>NaN\<close>, since only being zero or \<open>NaN\<close> matters to the code; promises and
    other thenables are not payload values;
  \<^item> an object is the list of its own enumerable properties, written to with
    \<open>AList.update\<close> (an existing key keeps its place, a new key is appended); prototypes
    are not modelled, and no property is named \<open>__proto__\<close>;
  \<^item> \<open>state.modals\<close> is one object: the key \<open>current\<close> and the modal names live in the same
    name space, as in \<open>aggr.state[name] = modal.state\<close>;
  \<^item> a promise is an index into a store of promise states; the \<open>resolve\<close> function of the
    promise with index \<open>p\<close> is the index \<open>p\<close> itself, and calling it settles the promise
    only while it is pending; every call is also logged. The promise that the \<open>async\<close>
    function \<open>open\<close> returns follows the one it creates, and the two are identified;
  \<^item> a \<open>TypeError\<close> is a value, returned with the state at the moment it is thrown.
\<close>

subsection \<open>Values\<close>

datatype jsval =
    JUndefined
  | JNull
  | JBool bool
  | JNum int
  | JNaN
  | JStr string
  | JObj "(string \<times> jsval) list"

type_synonym fields = "(string \<times> jsval) list"

text \<open>ToBoolean, as used by \<open>||\<close> and \<open>if\<close>.\<close>

fun truthy :: "jsval \<Rightarrow> bool" where
  "truthy JUndefined = False"
| "truthy JNull = False"
| "truthy (JBool b) = b"
| "truthy (JNum i) = (i \<noteq> 0)"
| "truthy JNaN = False"
| "truthy (JStr s) = (s \<noteq> [])"
| "truthy (JObj fs) = True"

text \<open>\<open>a || b\<close>\<close>

definition js_or :: "jsval \<Rightarrow> jsval \<Rightarrow> jsval" where
  "js_or a b = (if truthy a then a else b)"

text \<open>\<open>Object.assign(target, source)\<close> on the property lists: every property of the source,
  in order, is written to the target.\<close>

definition object_assign :: "fields \<Rightarrow> fields \<Rightarrow> fields" where
  "object_assign target source = fold (\<lambda>(k, v). AList.update k v) source target"

text \<open>
  The own properties of a string value that cannot be written: \<open>length\<close>, and every index
  below the length, written as a decimal numeral without leading zeros. \<open>Object.assign\<close>
  throws a \<open>TypeError\<close> when it has to write one of them on the wrapper of a string target.
\<close>

definition array_index :: "string \<Rightarrow> nat option" where
  "array_index k =
     (if k \<noteq> [] \<and> list_all (\<lambda>c. c \<in> set ''0123456789'') k \<and> (hd k = CHR ''0'' \<longrightarrow> k = ''0'')
      then Some (fold (\<lambda>c n. 10 * n + (of_char c - 48)) k 0) else None)"

definition string_own_property :: "string \<Rightarrow> string \<Rightarrow> bool" where
  "string_own_property s k =
     (k = ''length'' \<or> (case array_index k of None \<Rightarrow> False | Some i \<Rightarrow> i < length s))"

subsection \<open>Modal definitions and the world\<close>

text \<open>An entry of the argument \<open>modals\<close>: \<open>{ state?: IState; result?: unknown }\<close>.\<close>

record modal_def =
  state :: "fields option"
  result :: "jsval option"

text \<open>\<open>modal.result\<close>: reading an absent property gives \<open>undefined\<close>.\<close>

definition modal_result :: "modal_def \<Rightarrow> jsval" where
  "modal_result modal = (case result modal of None \<Rightarrow> JUndefined | Some v \<Rightarrow> v)"

text \<open>\<open>{...modal.state}\<close>: spreading \<open>undefined\<close> adds no property.\<close>

definition spread_state :: "modal_def \<Rightarrow> fields" where
  "spread_state modal = (case state modal of None \<Rightarrow> [] | Some fs \<Rightarrow> fs)"

datatype promise_state = Pending | Fulfilled jsval | Rejected jsval

datatype error = TypeError

text \<open>
  The mutable world of the registry:
  \<^item> \<open>state_modals\<close> is the object \<open>state.modals\<close>;
  \<^item> \<open>resolver w name\<close> is the variable \<open>resolver\<close> of \<open>createModal(name, _)\<close>, \<open>None\<close> while
    it is still \<open>undefined\<close>, otherwise the promise whose \<open>resolve\<close> it holds;
  \<^item> \<open>promises\<close> is the store of the promises that \<open>open\<close> has created;
  \<^item> \<open>resolver_calls\<close> logs every call \<open>resolver(v)\<close> made by \<open>close\<close>.
\<close>

record world =
  state_modals :: "string \<rightharpoonup> jsval"
  resolver :: "string \<rightharpoonup> nat"
  promises :: "promise_state list"
  resolver_calls :: "(nat \<times> jsval) list"

subsection \<open>\<open>createModal\<close>\<close>

text \<open>\<open>new Promise(resolve => { resolver = resolve; })\<close> inside \<open>createModal(name, _)\<close>: a new
  pending promise is allocated and its \<open>resolve\<close> stored in the variable; the executor takes
  no \<open>reject\<close>.\<close>

definition new_promise :: "string \<Rightarrow> world \<Rightarrow> nat \<times> world" where
  "new_promise name w =
     (length (promises w),
      w\<lparr>resolver := (resolver w)(name \<mapsto> length (promises w)),
        promises := promises w @ [Pending]\<rparr>)"

text \<open>The call \<open>resolver(v)\<close> where the variable holds the \<open>resolve\<close> of promise \<open>p\<close>: a pending
  promise is fulfilled with \<open>v\<close>, a settled one is left as it is.\<close>

definition call_resolver :: "nat \<Rightarrow> jsval \<Rightarrow> world \<Rightarrow> world" where
  "call_resolver p v w =
     w\<lparr>promises := (if p < length (promises w) \<and> promises w ! p = Pending
                     then (promises w)[p := Fulfilled v] else promises w),
       resolver_calls := resolver_calls w @ [(p, v)]\<rparr>"

text \<open>
  \<^verbatim>\<open>
  const open = async ({ state }, newState = {}) => {
    state.modals.current = name;
    Object.assign(state.modals[name], newState);
    return new Promise(resolve => { resolver = resolve; });
  };
  \<close>
  The argument is \<open>None\<close> when the caller passes nothing. \<open>Object.assign\<close> throws on an
  \<open>undefined\<close> or \<open>null\<close> target. On any other primitive target it writes to a wrapper
  object that is then discarded; the wrapper of a string refuses a write to one of the
  string's own properties, and \<open>Object.assign\<close> throws. The result is the new promise and
  the world.
\<close>

definition open_modal :: "string \<Rightarrow> fields option \<Rightarrow> world \<Rightarrow> (error \<times> world) + (nat \<times> world)" where
  "open_modal name newState w =
     (let w1 = w\<lparr>state_modals := (state_modals w)(''current'' \<mapsto> JStr name)\<rparr>;
          source = (case newState of None \<Rightarrow> [] | Some fs \<Rightarrow> fs)
      in case state_modals w1 name of
           None \<Rightarrow> Inl (TypeError, w1)
         | Some JUndefined \<Rightarrow> Inl (TypeError, w1)
         | Some JNull \<Rightarrow> Inl (TypeError, w1)
         | Some (JObj target) \<Rightarrow>
             Inr (new_promise name
                    (w1\<lparr>state_modals := (state_modals w1)(name \<mapsto> JObj (object_assign target source))\<rparr>))
         | Some (JStr s) \<Rightarrow>
             if list_ex (string_own_property s) (map fst source) then Inl (TypeError, w1)
             else Inr (new_promise name w1)
         | Some _ \<Rightarrow> Inr (new_promise name w1))"

text \<open>
  \<^verbatim>\<open>
  const close = async ({ state }, payload) => {
    state.modals.current = null;
    if (resolver) { resolver(payload || modal.result); }
  };
  \<close>
  A call without payload passes \<open>JUndefined\<close>.
\<close>

definition close_modal :: "string \<Rightarrow> modal_def \<Rightarrow> jsval \<Rightarrow> world \<Rightarrow> world" where
  "close_modal name modal payload w =
     (let w1 = w\<lparr>state_modals := (state_modals w)(''current'' \<mapsto> JNull)\<rparr>
      in case resolver w1 name of
           None \<Rightarrow> w1
         | Some p \<Rightarrow> call_resolver p (js_or payload (modal_result modal)) w1)"

text \<open>
  \<^verbatim>\<open>
  return {
    state: { ...modal.state,
             isCurrent: derived((_, root: RootState) => root.modals.current === name) },
    actions: { open, close },
  };
  \<close>
  \<open>createModal(name, modal)\<close> returns the sub-state object and the two actions. The actions
  are closures over \<open>name\<close> and \<open>modal\<close>, represented by that pair. The property \<open>isCurrent\<close>
  of the sub-state object is not one of its stored fields, and it hides a field of that
  name that \<open>modal.state\<close> may have: see \<open>read_isCurrent\<close> below.
\<close>

definition createModal :: "string \<Rightarrow> modal_def \<Rightarrow> jsval \<times> (string \<times> modal_def)" where
  "createModal name modal = (JObj (spread_state modal), (name, modal))"

text \<open>The function handed to \<open>derived\<close>: \<open>(_, root) => root.modals.current === name\<close>.\<close>

definition isCurrent :: "(string \<rightharpoonup> jsval) \<Rightarrow> string \<Rightarrow> bool" where
  "isCurrent root_modals name = (root_modals ''current'' = Some (JStr name))"

text \<open>
  Modelled from the spec: the function \<open>derived\<close> belongs to the overmind library and is not
  in the source. Following the specification, a derived property is a read-only projection
  that is recomputed from the root state on every read and that no assignment changes.
  \<open>read_isCurrent w k\<close> is the read \<open>state.modals[k].isCurrent\<close> (as in \<open>pages/index.tsx\<close>,
  \<open>modals.moveSandboxModal.isCurrent\<close>): an object stored under the
  key \<open>k\<close> of \<open>state.modals\<close> is the sub-state that \<open>createModal(k, _)\<close> built, so its
  \<open>isCurrent\<close> is the projection for \<open>k\<close>. A string, number or boolean has no such
  property, and reading a property of \<open>undefined\<close> or \<open>null\<close> throws.
\<close>

definition read_isCurrent :: "world \<Rightarrow> string \<Rightarrow> error + jsval" where
  "read_isCurrent w k =
     (case state_modals w k of
        None \<Rightarrow> Inl TypeError
      | Some JUndefined \<Rightarrow> Inl TypeError
      | Some JNull \<Rightarrow> Inl TypeError
      | Some (JObj fs) \<Rightarrow> Inr (JBool (isCurrent (state_modals w) k))
      | Some _ \<Rightarrow> Inr JUndefined)"

subsection \<open>\<open>createModals\<close>\<close>

text \<open>
  \<^verbatim>\<open>
  Object.keys(modals).reduce((aggr, name) => {
      const modal = createModal(name, modals[name]);
      aggr.state[name] = modal.state;
      aggr.actions[name] = modal.actions;
      return aggr;
    }, { state: { current: null }, actions: {} })
  \<close>
  The argument is the list of the entries of \<open>modals\<close>; \<open>Object.keys\<close> is the list of their
  names and \<open>modals[name]\<close> the lookup.
\<close>

definition createModals ::
  "(string \<times> modal_def) list \<Rightarrow> (string \<rightharpoonup> jsval) \<times> (string \<rightharpoonup> string \<times> modal_def)" where
  "createModals modals =
     fold (\<lambda>name aggr.
             let modal = createModal name (the (map_of modals name))
             in ((fst aggr)(name \<mapsto> fst modal), (snd aggr)(name \<mapsto> snd modal)))
          (map fst modals)
          ([''current'' \<mapsto> JNull], Map.empty)"

text \<open>The world right after construction: no \<open>resolver\<close> variable is assigned, no promise
  exists.\<close>

definition init_world :: "(string \<times> modal_def) list \<Rightarrow> world" where
  "init_world modals =
     \<lparr>state_modals = fst (createModals modals), resolver = Map.empty,
      promises = [], resolver_calls = []\<rparr>"

subsection \<open>Calling the actions\<close>

text \<open>\<open>actions.modals[n].open(newState)\<close> and \<open>actions.modals[n].close(payload)\<close>: for a name
  with no entry, reading \<open>.open\<close> of \<open>undefined\<close> throws before anything is changed.\<close>

definition registry_open ::
  "(string \<times> modal_def) list \<Rightarrow> string \<Rightarrow> fields option \<Rightarrow> world \<Rightarrow> (error \<times> world) + (nat \<times> world)" where
  "registry_open modals n newState w =
     (case snd (createModals modals) n of
        None \<Rightarrow> Inl (TypeError, w)
      | Some (name, modal) \<Rightarrow> open_modal name newState w)"

definition registry_close ::
  "(string \<times> modal_def) list \<Rightarrow> string \<Rightarrow> jsval \<Rightarrow> world \<Rightarrow> (error \<times> world) + world" where
  "registry_close modals n payload w =
     (case snd (createModals modals) n of
        None \<Rightarrow> Inl (TypeError, w)
      | Some (name, modal) \<Rightarrow> Inr (close_modal name modal payload w))"

datatype call = Open string "fields option" | Close string jsval

text \<open>The world a call leaves behind, whether it returned or threw.\<close>

fun world_after_open :: "(error \<times> world) + (nat \<times> world) \<Rightarrow> world" where
  "world_after_open (Inl (e, w)) = w"
| "world_after_open (Inr (p, w)) = w"

fun world_after_close :: "(error \<times> world) + world \<Rightarrow> world" where
  "world_after_close (Inl (e, w)) = w"
| "world_after_close (Inr w) = w"

fun dispatch :: "(string \<times> modal_def) list \<Rightarrow> call \<Rightarrow> world \<Rightarrow> world" where
  "dispatch modals (Open n newState) w = world_after_open (registry_open modals n newState w)"
| "dispatch modals (Close n payload) w = world_after_close (registry_close modals n payload w)"

text \<open>Any sequence of \<open>open\<close> and \<open>close\<close> calls; a call that throws does not stop the ones
  after it.\<close>

fun run :: "(string \<times> modal_def) list \<Rightarrow> call list \<Rightarrow> world \<Rightarrow> world" where
  "run modals [] w = w"
| "run modals (c # cs) w = run modals cs (dispatch modals c w)"

subsection \<open>What holds in every world the registry can reach\<close>

text \<open>Every modal name other than \<open>current\<close> still has its sub-state object, every
  assigned \<open>resolver\<close> variable holds a promise of the store, and no two variables hold the
  same promise.\<close>

definition sound :: "(string \<times> modal_def) list \<Rightarrow> world \<Rightarrow> bool" where
  "sound modals w \<longleftrightarrow>
     (\<forall>n \<in> fst ` set modals. n \<noteq> ''current'' \<longrightarrow> (\<exists>fs. state_modals w n = Some (JObj fs))) \<and>
     (\<forall>n p. resolver w n = Some p \<longrightarrow> p < length (promises w)) \<and>
     (\<forall>a b p. resolver w a = Some p \<longrightarrow> resolver w b = Some p \<longrightarrow> a = b)"

subsection \<open>Observations used by the statements\<close>

text \<open>The stored field \<open>k\<close> of the sub-state object under the key \<open>n\<close> of \<open>state.modals\<close>:
  \<open>None\<close> when no object is stored there or the object has no such field. The derived
  \<open>isCurrent\<close> is not a stored field.\<close>

definition read_field :: "world \<Rightarrow> string \<Rightarrow> string \<Rightarrow> jsval option" where
  "read_field w n k = (case state_modals w n of Some (JObj fs) \<Rightarrow> map_of fs k | _ \<Rightarrow> None)"

text \<open>\<open>current\<close> holds \<open>null\<close> or the name of a registered modal.\<close>

definition current_ok :: "(string \<times> modal_def) list \<Rightarrow> world \<Rightarrow> bool" where
  "current_ok modals w \<longleftrightarrow>
     state_modals w ''current'' = Some JNull \<or>
     (\<exists>n\<in>fst ` set modals. state_modals w ''current'' = Some (JStr n))"

text \<open>Promise \<open>p\<close> exists and no \<open>resolver\<close> variable other than that of \<open>n\<close> holds its
  \<open>resolve\<close>; promise \<open>p\<close> exists and no \<open>resolver\<close> variable at all holds it.\<close>

definition held_only_by :: "nat \<Rightarrow> string \<Rightarrow> world \<Rightarrow> bool" where
  "held_only_by p n w \<longleftrightarrow> p < length (promises w) \<and> (\<forall>m. resolver w m = Some p \<longrightarrow> m = n)"

definition orphaned :: "nat \<Rightarrow> world \<Rightarrow> bool" where
  "orphaned p w \<longleftrightarrow> p < length (promises w) \<and> (\<forall>m. resolver w m \<noteq> Some p)"

subsection \<open>Example registries\<close>

text \<open>The registry of the specification's scenarios, a registry whose default result is
  \<open>true\<close>, and a registry with a modal that is itself named \<open>current\<close>.\<close>

definition spec_modals :: "(string \<times> modal_def) list" where
  "spec_modals =
     [(''confirmDelete'', \<lparr>state = None, result = Some (JBool False)\<rparr>),
      (''rename'', \<lparr>state = Some [(''value'', JStr '''')], result = None\<rparr>)]"

definition confirm_modals :: "(string \<times> modal_def) list" where
  "confirm_modals = [(''confirm'', \<lparr>state = None, result = Some (JBool True)\<rparr>)]"

definition clash_modals :: "(string \<times> modal_def) list" where
  "clash_modals =
     [(''current'', \<lparr>state = Some [(''x'', JNum 1)], result = None\<rparr>),
      (''rename'', \<lparr>state = Some [(''value'', JStr '''')], result = None\<rparr>)]"

section \<open>Properties of the construction and of single calls\<close>

text \<open>The defining equations with which a run on a concrete registry is evaluated.\<close>

lemmas eval_defs =
  createModals_def createModal_def init_world_def registry_open_def registry_close_def
  open_modal_def close_modal_def new_promise_def call_resolver_def js_or_def modal_result_def
  spread_state_def object_assign_def read_isCurrent_def isCurrent_def Let_def
  string_own_property_def array_index_def

subsection \<open>What \<open>createModals\<close> builds\<close>

text \<open>Each name of the definition map gets its sub-state object and its pair of actions;
  \<open>current\<close> starts as \<open>null\<close> unless a modal of that name overwrites it.\<close>

lemma createModals_fold:
  "fold (\<lambda>name aggr.
           let modal = createModal name (the (map_of modals name))
           in ((fst aggr)(name \<mapsto> fst modal), (snd aggr)(name \<mapsto> snd modal))) ks (s, a)
   = ((\<lambda>k. if k \<in> set ks then Some (JObj (spread_state (the (map_of modals k)))) else s k),
      (\<lambda>k. if k \<in> set ks then Some (k, the (map_of modals k)) else a k))"
  by (induction ks arbitrary: s a) (auto simp: createModal_def Let_def fun_eq_iff)

lemma createModals_actions:
  "snd (createModals modals) n =
     (if n \<in> fst ` set modals then Some (n, the (map_of modals n)) else None)"
  by (simp add: createModals_def createModals_fold)

lemma createModals_state:
  "fst (createModals modals) k =
     (if k \<in> fst ` set modals then Some (JObj (spread_state (the (map_of modals k))))
      else if k = ''current'' then Some JNull else None)"
  by (simp add: createModals_def createModals_fold)

lemma registered_action:
  "map_of modals n = Some modal \<Longrightarrow> snd (createModals modals) n = Some (n, modal)"
  by (auto simp: createModals_actions dest: map_of_SomeD intro: rev_image_eqI)

lemma registry_open_registered:
  "map_of modals n = Some modal \<Longrightarrow> registry_open modals n ns w = open_modal n ns w"
  by (simp add: registry_open_def registered_action)

lemma registry_close_registered:
  "map_of modals n = Some modal \<Longrightarrow>
   registry_close modals n payload w = Inr (close_modal n modal payload w)"
  by (simp add: registry_close_def registered_action)

subsection \<open>\<open>open\<close> on an object and on the string \<open>current\<close>\<close>

lemma open_modal_object:
  "n \<noteq> ''current'' \<Longrightarrow> state_modals w n = Some (JObj target) \<Longrightarrow>
   open_modal n ns w =
     Inr (length (promises w),
          w\<lparr>state_modals := (state_modals w)(''current'' \<mapsto> JStr n,
                n \<mapsto> JObj (object_assign target (case ns of None \<Rightarrow> [] | Some fs \<Rightarrow> fs))),
            resolver := (resolver w)(n \<mapsto> length (promises w)),
            promises := promises w @ [Pending]\<rparr>)"
  by (simp add: open_modal_def new_promise_def Let_def)

lemma open_modal_current:
  "open_modal ''current'' None w =
     Inr (length (promises w),
          w\<lparr>state_modals := (state_modals w)(''current'' \<mapsto> JStr ''current''),
            resolver := (resolver w)(''current'' \<mapsto> length (promises w)),
            promises := promises w @ [Pending]\<rparr>)"
  by (simp add: open_modal_def new_promise_def Let_def)

text \<open>\<open>Object.assign\<close> is a shallow merge in which the source wins.\<close>

lemma object_assign_lookup:
  "map_of (object_assign target source) k =
     (case map_of (rev source) k of Some v \<Rightarrow> Some v | None \<Rightarrow> map_of target k)"
  unfolding object_assign_def
proof (induction source arbitrary: target)
  case Nil
  then show ?case by simp
next
  case (Cons a source)
  obtain k' v' where a: "a = (k', v')" by (cases a)
  show ?case
    by (simp add: a Cons.IH update_conv' map_add_def split: option.splits)
qed

subsection \<open>The invariant holds in every reachable world\<close>

lemma sound_init: "sound modals (init_world modals)"
  by (simp add: sound_def init_world_def createModals_state)

lemma open_modal_resolver:
  "resolver (world_after_open (open_modal n ns w)) m = Some p \<Longrightarrow>
   resolver w m = Some p \<or>
   (m = n \<and> p = length (promises w) \<and>
    promises (world_after_open (open_modal n ns w)) = promises w @ [Pending])"
  by (auto simp: open_modal_def new_promise_def Let_def split: option.splits jsval.splits if_splits)

lemma open_modal_promises:
  "promises (world_after_open (open_modal n ns w)) = promises w \<or>
   promises (world_after_open (open_modal n ns w)) = promises w @ [Pending]"
  by (auto simp: open_modal_def new_promise_def Let_def split: option.splits jsval.splits)

lemma open_modal_keeps_object:
  "k \<noteq> ''current'' \<Longrightarrow> state_modals w k = Some (JObj fs) \<Longrightarrow>
   \<exists>fs'. state_modals (world_after_open (open_modal n ns w)) k = Some (JObj fs')"
  by (auto simp: open_modal_def new_promise_def Let_def split: option.splits jsval.splits)

lemma sound_object:
  "sound modals w \<Longrightarrow> n \<in> fst ` set modals \<Longrightarrow> n \<noteq> ''current'' \<Longrightarrow>
   \<exists>fs. state_modals w n = Some (JObj fs)"
  unfolding sound_def by blast

lemma sound_resolver: "sound modals w \<Longrightarrow> resolver w n = Some p \<Longrightarrow> p < length (promises w)"
  unfolding sound_def by blast

lemma sound_distinct:
  "sound modals w \<Longrightarrow> resolver w a = Some p \<Longrightarrow> resolver w b = Some p \<Longrightarrow> a = b"
  unfolding sound_def by blast

lemma soundI:
  assumes "\<And>n. n \<in> fst ` set modals \<Longrightarrow> n \<noteq> ''current'' \<Longrightarrow> \<exists>fs. state_modals w n = Some (JObj fs)"
    and "\<And>n p. resolver w n = Some p \<Longrightarrow> p < length (promises w)"
    and "\<And>a b p. resolver w a = Some p \<Longrightarrow> resolver w b = Some p \<Longrightarrow> a = b"
  shows "sound modals w"
  unfolding sound_def using assms by blast

lemma sound_open:
  assumes "sound modals w"
  shows "sound modals (world_after_open (open_modal n ns w))"
proof (rule soundI)
  fix k assume "k \<in> fst ` set modals" and k: "k \<noteq> ''current''"
  with assms have "\<exists>fs. state_modals w k = Some (JObj fs)" by (rule sound_object)
  then obtain fs where "state_modals w k = Some (JObj fs)" ..
  with k show "\<exists>fs. state_modals (world_after_open (open_modal n ns w)) k = Some (JObj fs)"
    by (rule open_modal_keeps_object)
next
  fix m p assume r: "resolver (world_after_open (open_modal n ns w)) m = Some p"
  from open_modal_resolver [OF r] show "p < length (promises (world_after_open (open_modal n ns w)))"
  proof
    assume "resolver w m = Some p"
    with assms have "p < length (promises w)" by (rule sound_resolver)
    with open_modal_promises [of n ns w] show ?thesis by auto
  next
    assume "m = n \<and> p = length (promises w) \<and>
      promises (world_after_open (open_modal n ns w)) = promises w @ [Pending]"
    then show ?thesis by simp
  qed
next
  fix a b p
  assume ra: "resolver (world_after_open (open_modal n ns w)) a = Some p"
    and rb: "resolver (world_after_open (open_modal n ns w)) b = Some p"
  have fresh: "resolver w x \<noteq> Some (length (promises w))" for x
  proof
    assume "resolver w x = Some (length (promises w))"
    with assms have "length (promises w) < length (promises w)" by (rule sound_resolver)
    then show False by simp
  qed
  from open_modal_resolver [OF ra] open_modal_resolver [OF rb] show "a = b"
  proof (elim disjE conjE)
    assume "resolver w a = Some p" and "resolver w b = Some p"
    with assms show ?thesis by (rule sound_distinct)
  next
    assume "resolver w a = Some p" and "p = length (promises w)"
    with fresh [of a] show ?thesis by simp
  next
    assume "resolver w b = Some p" and "p = length (promises w)"
    with fresh [of b] show ?thesis by simp
  next
    assume "a = n" and "b = n"
    then show ?thesis by simp
  qed
qed

lemma close_modal_state:
  "state_modals (close_modal n modal payload w) = (state_modals w)(''current'' \<mapsto> JNull)"
  by (simp add: close_modal_def call_resolver_def Let_def split: option.splits)

lemma close_modal_resolver: "resolver (close_modal n modal payload w) = resolver w"
  by (simp add: close_modal_def call_resolver_def Let_def split: option.splits)

lemma close_modal_length: "length (promises (close_modal n modal payload w)) = length (promises w)"
  by (simp add: close_modal_def call_resolver_def Let_def split: option.splits)

lemma sound_close: "sound modals w \<Longrightarrow> sound modals (close_modal n modal payload w)"
  by (simp add: sound_def close_modal_state close_modal_resolver close_modal_length)

lemma sound_dispatch:
  assumes "sound modals w"
  shows "sound modals (dispatch modals c w)"
proof (cases c)
  case (Open n ns)
  with assms show ?thesis
    by (cases "snd (createModals modals) n") (auto simp: registry_open_def sound_open)
next
  case (Close n payload)
  with assms show ?thesis
    by (cases "snd (createModals modals) n") (auto simp: registry_close_def sound_close)
qed

lemma sound_run: "sound modals w \<Longrightarrow> sound modals (run modals cs w)"
  by (induction cs arbitrary: w) (simp_all add: sound_dispatch)

lemma sound_reachable: "sound modals (run modals cs (init_world modals))"
  by (simp add: sound_run sound_init)

subsection \<open>\<open>open\<close> of a registered modal returns\<close>

lemma registered_name:
  assumes "map_of modals n = Some modal"
  shows "n \<in> fst ` set modals"
proof -
  from assms have "(n, modal) \<in> set modals" by (rule map_of_SomeD)
  then have "fst (n, modal) \<in> fst ` set modals" by (rule imageI)
  then show ?thesis by simp
qed

lemma open_returns:
  assumes "sound modals w" and "map_of modals n = Some modal" and "n = ''current'' \<longrightarrow> ns = None"
  shows "\<exists>w'. registry_open modals n ns w = Inr (length (promises w), w') \<and>
              resolver w' = (resolver w)(n \<mapsto> length (promises w)) \<and>
              promises w' = promises w @ [Pending] \<and>
              resolver_calls w' = resolver_calls w \<and>
              state_modals w' ''current'' = Some (JStr n)"
proof -
  have reg: "registry_open modals n ns w = open_modal n ns w"
    using assms(2) by (rule registry_open_registered)
  show ?thesis
  proof (cases "n = ''current''")
    case True
    with assms(3) have none: "ns = None" by simp
    let ?W = "w\<lparr>state_modals := (state_modals w)(''current'' \<mapsto> JStr ''current''),
                 resolver := (resolver w)(''current'' \<mapsto> length (promises w)),
                 promises := promises w @ [Pending]\<rparr>"
    have "registry_open modals n ns w = Inr (length (promises w), ?W)"
      unfolding reg unfolding True none by (rule open_modal_current)
    then show ?thesis
      unfolding True by (intro exI [of _ ?W]) simp
  next
    case False
    from assms(2) have "n \<in> fst ` set modals" by (rule registered_name)
    with assms(1) have "\<exists>fs. state_modals w n = Some (JObj fs)"
      using False by (rule sound_object)
    then obtain target where t: "state_modals w n = Some (JObj target)" ..
    let ?W = "w\<lparr>state_modals := (state_modals w)(''current'' \<mapsto> JStr n,
                  n \<mapsto> JObj (object_assign target (case ns of None \<Rightarrow> [] | Some fs \<Rightarrow> fs))),
                 resolver := (resolver w)(n \<mapsto> length (promises w)),
                 promises := promises w @ [Pending]\<rparr>"
    have "registry_open modals n ns w = Inr (length (promises w), ?W)"
      unfolding reg using False t by (rule open_modal_object)
    then show ?thesis
      using False by (intro exI [of _ ?W]) simp
  qed
qed

lemma close_pending:
  assumes "resolver w n = Some p" and "p < length (promises w)" and "promises w ! p = Pending"
  shows "promises (close_modal n modal payload w) ! p = Fulfilled (js_or payload (modal_result modal))"
  using assms by (simp add: close_modal_def call_resolver_def Let_def)

lemma open_close_resolves:
  assumes "map_of modals n = Some modal"
  shows "\<exists>p w1 w2. registry_open modals n None (run modals cs (init_world modals)) = Inr (p, w1) \<and>
           p < length (promises w1) \<and> promises w1 ! p = Pending \<and>
           registry_close modals n payload w1 = Inr w2 \<and>
           promises w2 ! p = Fulfilled (js_or payload (modal_result modal))"
proof -
  let ?w = "run modals cs (init_world modals)"
  have "n = ''current'' \<longrightarrow> (None :: fields option) = None" by simp
  from open_returns [OF sound_reachable assms this, where cs1 = cs]
  obtain w1 where o: "registry_open modals n None ?w = Inr (length (promises ?w), w1)"
    and r: "resolver w1 = (resolver ?w)(n \<mapsto> length (promises ?w))"
    and p: "promises w1 = promises ?w @ [Pending]"
    by blast
  have "promises (close_modal n modal payload w1) ! length (promises ?w)
        = Fulfilled (js_or payload (modal_result modal))"
    by (rule close_pending) (simp_all add: r p)
  with o p assms show ?thesis
    by (simp add: registry_close_registered)
qed

subsection \<open>Frame of one call\<close>

lemma run_append: "run modals (cs @ cs') w = run modals cs' (run modals cs w)"
  by (induction cs arbitrary: w) simp_all

lemma run_snoc: "run modals (cs @ [c]) w = dispatch modals c (run modals cs w)"
  by (simp add: run_append)

lemma dispatch_open_registered:
  "map_of modals n = Some modal \<Longrightarrow>
   dispatch modals (Open n ns) w = world_after_open (open_modal n ns w)"
  by (simp add: registry_open_registered)

lemma dispatch_close_registered:
  "map_of modals n = Some modal \<Longrightarrow>
   dispatch modals (Close n payload) w = close_modal n modal payload w"
  by (simp add: registry_close_registered)

lemma dispatch_unregistered:
  "snd (createModals modals) n = None \<Longrightarrow>
   dispatch modals (Open n ns) w = w \<and> dispatch modals (Close n payload) w = w"
  by (simp add: registry_open_def registry_close_def)

lemma open_modal_frame:
  "m \<noteq> n \<Longrightarrow> resolver (world_after_open (open_modal n ns w)) m = resolver w m"
  "m \<noteq> n \<Longrightarrow> m \<noteq> ''current'' \<Longrightarrow>
     state_modals (world_after_open (open_modal n ns w)) m = state_modals w m"
  "resolver_calls (world_after_open (open_modal n ns w)) = resolver_calls w"
  by (auto simp: open_modal_def new_promise_def Let_def split: option.splits jsval.splits)

lemma open_modal_sets_current:
  "n \<noteq> ''current'' \<Longrightarrow>
   state_modals (world_after_open (open_modal n ns w)) ''current'' = Some (JStr n)"
  by (auto simp: open_modal_def new_promise_def Let_def split: option.splits jsval.splits)

lemma dispatch_open_resolver:
  "m \<noteq> n \<Longrightarrow> resolver (dispatch modals (Open n ns) w) m = resolver w m"
  by (auto simp: registry_open_def createModals_actions open_modal_frame)

lemma dispatch_close_resolver:
  "resolver (dispatch modals (Close n payload) w) m = resolver w m"
  by (auto simp: registry_close_def createModals_actions close_modal_resolver)

lemma dispatch_open_state:
  "m \<noteq> n \<Longrightarrow> m \<noteq> ''current'' \<Longrightarrow>
   state_modals (dispatch modals (Open n ns) w) m = state_modals w m"
  by (auto simp: registry_open_def createModals_actions open_modal_frame)

lemma dispatch_close_state:
  "m \<noteq> ''current'' \<Longrightarrow>
   state_modals (dispatch modals (Close n payload) w) m = state_modals w m"
  by (auto simp: registry_close_def createModals_actions close_modal_state)

lemma dispatch_promises_length: "length (promises w) \<le> length (promises (dispatch modals c w))"
proof (cases c)
  case (Open n ns)
  show ?thesis
    using open_modal_promises [of n ns w]
    by (cases "n \<in> fst ` set modals") (auto simp: Open registry_open_def createModals_actions)
next
  case (Close n payload)
  show ?thesis
    by (cases "n \<in> fst ` set modals")
       (simp_all add: Close registry_close_def createModals_actions close_modal_length)
qed

lemma dispatch_resolver:
  "resolver (dispatch modals c w) m = Some p \<Longrightarrow>
   resolver w m = Some p \<or> p = length (promises w)"
proof (cases c)
  case (Open n ns)
  assume "resolver (dispatch modals c w) m = Some p"
  then show ?thesis
    using open_modal_resolver [of n ns w m p]
    by (cases "n \<in> fst ` set modals") (auto simp: Open registry_open_def createModals_actions)
next
  case (Close n payload)
  assume "resolver (dispatch modals c w) m = Some p"
  then show ?thesis
    by (simp add: Close dispatch_close_resolver del: dispatch.simps)
qed

lemma close_modal_promise_other:
  "resolver w n \<noteq> Some p \<Longrightarrow> promises (close_modal n modal payload w) ! p = promises w ! p"
  by (auto simp: close_modal_def call_resolver_def Let_def split: option.splits)

lemma close_modal_calls:
  "resolver w n = Some p \<Longrightarrow>
   resolver_calls (close_modal n modal payload w) =
     resolver_calls w @ [(p, js_or payload (modal_result modal))]"
  by (simp add: close_modal_def call_resolver_def Let_def)

lemma close_modal_settled:
  "resolver w n = Some p \<Longrightarrow> promises w ! p \<noteq> Pending \<Longrightarrow>
   promises (close_modal n modal payload w) = promises w"
  by (simp add: close_modal_def call_resolver_def Let_def)

lemma dispatch_other_promise:
  assumes "sound modals w" and "m \<noteq> n" and "resolver w m = Some q"
  shows "promises (dispatch modals (Open n ns) w) ! q = promises w ! q"
    and "promises (dispatch modals (Close n payload) w) ! q = promises w ! q"
proof -
  from assms(1,3) have lt: "q < length (promises w)" by (rule sound_resolver)
  show "promises (dispatch modals (Open n ns) w) ! q = promises w ! q"
    using open_modal_promises [of n ns w] lt
    by (cases "n \<in> fst ` set modals")
       (auto simp: registry_open_def createModals_actions nth_append)
  have "resolver w n \<noteq> Some q"
  proof
    assume "resolver w n = Some q"
    with assms(1) have "n = m" using assms(3) by (rule sound_distinct)
    with assms(2) show False by simp
  qed
  then show "promises (dispatch modals (Close n payload) w) ! q = promises w ! q"
    by (cases "n \<in> fst ` set modals")
       (simp_all add: registry_close_def createModals_actions close_modal_promise_other)
qed

subsection \<open>The value of \<open>current\<close>\<close>

lemma current_ok_dispatch:
  assumes "''current'' \<notin> fst ` set modals" and "current_ok modals w"
  shows "current_ok modals (dispatch modals c w)"
proof (cases c)
  case (Open n ns)
  show ?thesis
  proof (cases "n \<in> fst ` set modals")
    case True
    with assms(1) have "n \<noteq> ''current''" by blast
    then have "state_modals (world_after_open (open_modal n ns w)) ''current'' = Some (JStr n)"
      by (rule open_modal_sets_current)
    with True show ?thesis
      unfolding Open current_ok_def by (auto simp: registry_open_def createModals_actions)
  next
    case False
    with assms(2) show ?thesis
      unfolding Open by (simp add: registry_open_def createModals_actions)
  qed
next
  case (Close n payload)
  with assms(2) show ?thesis
    by (cases "n \<in> fst ` set modals")
       (simp_all add: registry_close_def createModals_actions close_modal_state current_ok_def)
qed

lemma current_ok_run:
  "''current'' \<notin> fst ` set modals \<Longrightarrow> current_ok modals w \<Longrightarrow> current_ok modals (run modals cs w)"
  by (induction cs arbitrary: w) (simp_all add: current_ok_dispatch)

lemma current_ok_init:
  "''current'' \<notin> fst ` set modals \<Longrightarrow> current_ok modals (init_world modals)"
  by (simp add: current_ok_def init_world_def createModals_state)

subsection \<open>Opening a registered modal\<close>

lemma open_registered_object:
  assumes "n \<noteq> ''current''" and "map_of modals n = Some modal"
  shows "\<exists>target.
           state_modals (run modals cs (init_world modals)) n = Some (JObj target) \<and>
           registry_open modals n ns (run modals cs (init_world modals)) =
             Inr (length (promises (run modals cs (init_world modals))),
                  (run modals cs (init_world modals))
                    \<lparr>state_modals := (state_modals (run modals cs (init_world modals)))
                       (''current'' \<mapsto> JStr n,
                        n \<mapsto> JObj (object_assign target (case ns of None \<Rightarrow> [] | Some fs \<Rightarrow> fs))),
                     resolver := (resolver (run modals cs (init_world modals)))
                       (n \<mapsto> length (promises (run modals cs (init_world modals)))),
                     promises := promises (run modals cs (init_world modals)) @ [Pending]\<rparr>)"
proof -
  let ?w = "run modals cs (init_world modals)"
  from assms(2) have "n \<in> fst ` set modals" by (rule registered_name)
  with sound_reachable have "\<exists>fs. state_modals ?w n = Some (JObj fs)"
    using assms(1) by (rule sound_object)
  then obtain target where t: "state_modals ?w n = Some (JObj target)" ..
  have "registry_open modals n ns ?w = open_modal n ns ?w"
    using assms(2) by (rule registry_open_registered)
  with t show ?thesis
    by (simp add: open_modal_object [OF assms(1) t])
qed

lemma open_field:
  assumes "n \<noteq> ''current''" and "map_of modals n = Some modal"
  shows "read_field (dispatch modals (Open n ns) (run modals cs (init_world modals))) n k =
           (case map_of (rev (case ns of None \<Rightarrow> [] | Some fs \<Rightarrow> fs)) k of
              Some v \<Rightarrow> Some v
            | None \<Rightarrow> read_field (run modals cs (init_world modals)) n k)"
proof -
  let ?w = "run modals cs (init_world modals)"
  from open_registered_object [OF assms, of cs ns]
  obtain target w' where t: "state_modals ?w n = Some (JObj target)"
    and o: "registry_open modals n ns ?w = Inr (length (promises ?w), w')"
    and s: "state_modals w' = (state_modals ?w)(''current'' \<mapsto> JStr n,
              n \<mapsto> JObj (object_assign target (case ns of None \<Rightarrow> [] | Some fs \<Rightarrow> fs)))"
    by auto
  show ?thesis
    by (simp add: o s t read_field_def object_assign_lookup split: option.splits)
qed

subsection \<open>Promises that no variable holds any more\<close>

lemma held_only_by_dispatch:
  assumes "held_only_by p n w"
  shows "held_only_by p n (dispatch modals c w)"
  unfolding held_only_by_def
proof (intro conjI allI impI)
  from assms dispatch_promises_length [of w modals c]
  show "p < length (promises (dispatch modals c w))"
    by (simp add: held_only_by_def)
next
  fix m assume "resolver (dispatch modals c w) m = Some p"
  from dispatch_resolver [OF this] assms show "m = n"
    by (auto simp: held_only_by_def)
qed

lemma held_only_by_run: "held_only_by p n w \<Longrightarrow> held_only_by p n (run modals cs w)"
proof (induction cs arbitrary: w)
  case Nil
  then show ?case by simp
next
  case (Cons c cs)
  from Cons.prems have "held_only_by p n (dispatch modals c w)"
    by (rule held_only_by_dispatch)
  then have "held_only_by p n (run modals cs (dispatch modals c w))"
    by (rule Cons.IH)
  then show ?case by simp
qed

lemma orphaned_dispatch:
  assumes "orphaned p w"
  shows "orphaned p (dispatch modals c w) \<and> promises (dispatch modals c w) ! p = promises w ! p"
proof -
  from assms have lt: "p < length (promises w)" and no: "\<And>m. resolver w m \<noteq> Some p"
    by (simp_all add: orphaned_def)
  have "orphaned p (dispatch modals c w)"
    unfolding orphaned_def
  proof (intro conjI allI notI)
    from lt dispatch_promises_length [of w modals c]
    show "p < length (promises (dispatch modals c w))" by simp
  next
    fix m assume "resolver (dispatch modals c w) m = Some p"
    from dispatch_resolver [OF this] lt no show False by auto
  qed
  moreover have "promises (dispatch modals c w) ! p = promises w ! p"
  proof (cases c)
    case (Open n ns)
    show ?thesis
      using open_modal_promises [of n ns w] lt
      by (cases "n \<in> fst ` set modals")
         (auto simp: Open registry_open_def createModals_actions nth_append)
  next
    case (Close n payload)
    show ?thesis
      using no [of n]
      by (cases "n \<in> fst ` set modals")
         (simp_all add: Close registry_close_def createModals_actions close_modal_promise_other)
  qed
  ultimately show ?thesis ..
qed

lemma orphaned_run:
  "orphaned p w \<Longrightarrow> promises (run modals cs w) ! p = promises w ! p"
proof (induction cs arbitrary: w)
  case Nil
  show ?case by simp
next
  case (Cons c cs)
  from orphaned_dispatch [OF Cons.prems, of modals c]
  have "orphaned p (dispatch modals c w)"
    and "promises (dispatch modals c w) ! p = promises w ! p"
    by simp_all
  with Cons.IH [of "dispatch modals c w"] show ?case by simp
qed

lemma resolver_stays_assigned_dispatch:
  "resolver w n \<noteq> None \<Longrightarrow> resolver (dispatch modals c w) n \<noteq> None"
proof (cases c)
  case (Open m ns)
  assume "resolver w n \<noteq> None"
  then show ?thesis
    by (cases "m \<in> fst ` set modals")
       (auto simp: Open registry_open_def createModals_actions open_modal_def new_promise_def
          Let_def split: option.splits jsval.splits)
next
  case (Close m payload)
  assume "resolver w n \<noteq> None"
  then show ?thesis
    by (simp add: Close dispatch_close_resolver del: dispatch.simps)
qed

lemma resolver_stays_assigned:
  "resolver w n \<noteq> None \<Longrightarrow> resolver (run modals cs w) n \<noteq> None"
proof (induction cs arbitrary: w)
  case Nil
  then show ?case by simp
next
  case (Cons c cs)
  from Cons.prems have "resolver (dispatch modals c w) n \<noteq> None"
    by (rule resolver_stays_assigned_dispatch)
  then have "resolver (run modals cs (dispatch modals c w)) n \<noteq> None"
    by (rule Cons.IH)
  then show ?case by simp
qed

subsection \<open>Closing with a truthy payload\<close>

lemma truthy_payload_resolves:
  assumes "map_of modals n = Some modal" and "truthy payload"
  shows "\<exists>p w1 w2.
           registry_open modals n None (run modals cs (init_world modals)) = Inr (p, w1) \<and>
           p < length (promises w1) \<and> promises w1 ! p = Pending \<and>
           registry_close modals n payload w1 = Inr w2 \<and>
           promises w2 ! p = Fulfilled payload"
  using open_close_resolves [OF assms(1), of cs payload] assms(2)
  by (simp add: js_or_def)

section \<open>The claims\<close>

text \<open>
  Claim C1: after \<open>open(n)\<close> and \<open>close(n, payload)\<close> the suspension resolves to exactly
  the payload, also when the payload is falsy. The code passes \<open>payload || modal.result\<close> to
  the resolver, so a falsy payload is replaced by the default result: in a registry whose
  default result is \<open>true\<close>, closing with \<open>false\<close> resolves the suspension to \<open>true\<close>.
  For a truthy payload the suspension does resolve to the payload
  (\<open>truthy_payload_resolves\<close>).
\<close>

theorem falsy_payload_replaced_by_default:
  "promises (run confirm_modals [Open ''confirm'' None, Close ''confirm'' (JBool False)]
               (init_world confirm_modals)) = [Fulfilled (JBool True)]"
  by (simp add: confirm_modals_def eval_defs)

text \<open>
  Claim C2: for a registered name \<open>n\<close> with definition \<open>modal\<close>, in any world the registry
  can reach, \<open>open(n)\<close> returns a new pending promise, and \<open>close(n)\<close> without payload right
  after it fulfils that promise with the value configured as \<open>result\<close> of \<open>modal\<close>, or with
  \<open>undefined\<close> when \<open>modal\<close> configures no \<open>result\<close>.
\<close>

theorem close_without_payload_resolves_default:
  assumes "map_of modals n = Some modal"
  shows "\<exists>p w1 w2.
           registry_open modals n None (run modals cs (init_world modals)) = Inr (p, w1) \<and>
           p < length (promises w1) \<and> promises w1 ! p = Pending \<and>
           registry_close modals n JUndefined w1 = Inr w2 \<and>
           promises w2 ! p = Fulfilled (case result modal of None \<Rightarrow> JUndefined | Some v \<Rightarrow> v)"
  using open_close_resolves [OF assms, of cs JUndefined]
  by (simp add: js_or_def modal_result_def)

text \<open>The specification's registry: \<open>confirmDelete\<close> configures the default result \<open>false\<close>,
  and the suspension resolves to \<open>false\<close>; \<open>rename\<close> configures none, and the suspension
  resolves to \<open>undefined\<close>. In the registry whose default result is \<open>true\<close>, it resolves to
  \<open>true\<close>.\<close>

theorem close_without_payload_resolves_default_witness:
  "map_of spec_modals ''confirmDelete'' = Some \<lparr>state = None, result = Some (JBool False)\<rparr> \<and>
   (\<exists>p w1 w2.
      registry_open spec_modals ''confirmDelete'' None
        (run spec_modals [] (init_world spec_modals)) = Inr (p, w1) \<and>
      p < length (promises w1) \<and> promises w1 ! p = Pending \<and>
      registry_close spec_modals ''confirmDelete'' JUndefined w1 = Inr w2 \<and>
      promises w2 ! p = Fulfilled (JBool False)) \<and>
   map_of spec_modals ''rename'' = Some \<lparr>state = Some [(''value'', JStr '''')], result = None\<rparr> \<and>
   (\<exists>p w1 w2.
      registry_open spec_modals ''rename'' None
        (run spec_modals [Open ''confirmDelete'' None] (init_world spec_modals)) = Inr (p, w1) \<and>
      p < length (promises w1) \<and> promises w1 ! p = Pending \<and>
      registry_close spec_modals ''rename'' JUndefined w1 = Inr w2 \<and>
      promises w2 ! p = Fulfilled JUndefined) \<and>
   map_of confirm_modals ''confirm'' = Some \<lparr>state = None, result = Some (JBool True)\<rparr> \<and>
   (\<exists>p w1 w2.
      registry_open confirm_modals ''confirm'' None
        (run confirm_modals [] (init_world confirm_modals)) = Inr (p, w1) \<and>
      p < length (promises w1) \<and> promises w1 ! p = Pending \<and>
      registry_close confirm_modals ''confirm'' JUndefined w1 = Inr w2 \<and>
      promises w2 ! p = Fulfilled (JBool True)) \<and>
   promises (run spec_modals [Open ''confirmDelete'' None, Close ''confirmDelete'' JUndefined]
      (init_world spec_modals)) = [Fulfilled (JBool False)] \<and>
   promises (run confirm_modals [Open ''confirm'' None, Close ''confirm'' JUndefined]
      (init_world confirm_modals)) = [Fulfilled (JBool True)]"
proof -
  have h1: "map_of spec_modals ''confirmDelete'' = Some \<lparr>state = None, result = Some (JBool False)\<rparr>"
    and h2: "map_of spec_modals ''rename''
      = Some \<lparr>state = Some [(''value'', JStr '''')], result = None\<rparr>"
    by (simp_all add: spec_modals_def)
  have h3: "map_of confirm_modals ''confirm'' = Some \<lparr>state = None, result = Some (JBool True)\<rparr>"
    by (simp add: confirm_modals_def)
  have c1: "\<exists>p w1 w2.
      registry_open spec_modals ''confirmDelete'' None
        (run spec_modals [] (init_world spec_modals)) = Inr (p, w1) \<and>
      p < length (promises w1) \<and> promises w1 ! p = Pending \<and>
      registry_close spec_modals ''confirmDelete'' JUndefined w1 = Inr w2 \<and>
      promises w2 ! p = Fulfilled (JBool False)"
    using close_without_payload_resolves_default [OF h1, of "[]"] by simp
  have c2: "\<exists>p w1 w2.
      registry_open spec_modals ''rename'' None
        (run spec_modals [Open ''confirmDelete'' None] (init_world spec_modals)) = Inr (p, w1) \<and>
      p < length (promises w1) \<and> promises w1 ! p = Pending \<and>
      registry_close spec_modals ''rename'' JUndefined w1 = Inr w2 \<and>
      promises w2 ! p = Fulfilled JUndefined"
    using close_without_payload_resolves_default [OF h2, of "[Open ''confirmDelete'' None]"]
    by simp
  have c3: "\<exists>p w1 w2.
      registry_open confirm_modals ''confirm'' None
        (run confirm_modals [] (init_world confirm_modals)) = Inr (p, w1) \<and>
      p < length (promises w1) \<and> promises w1 ! p = Pending \<and>
      registry_close confirm_modals ''confirm'' JUndefined w1 = Inr w2 \<and>
      promises w2 ! p = Fulfilled (JBool True)"
    using close_without_payload_resolves_default [OF h3, of "[]"] by simp
  have e1: "promises (run spec_modals [Open ''confirmDelete'' None, Close ''confirmDelete'' JUndefined]
      (init_world spec_modals)) = [Fulfilled (JBool False)]"
    by (simp add: spec_modals_def eval_defs)
  have e2: "promises (run confirm_modals [Open ''confirm'' None, Close ''confirm'' JUndefined]
      (init_world confirm_modals)) = [Fulfilled (JBool True)]"
    by (simp add: confirm_modals_def eval_defs)
  from h1 c1 h2 c2 h3 c3 e1 e2 show ?thesis by (intro conjI)
qed

text \<open>
  Claim C3, amended: in a registry that has no modal named \<open>current\<close>, for every registered
  name \<open>n\<close> and in any world the registry can reach, \<open>open(n)\<close> returns without error, sets
  \<open>current\<close> to \<open>n\<close>, and afterwards \<open>isCurrent\<close> reads \<open>true\<close> for \<open>n\<close> and \<open>false\<close> for
  every other registered name.
\<close>

theorem open_sets_current_and_isCurrent:
  assumes "''current'' \<notin> fst ` set modals" and "map_of modals n = Some modal"
  shows "\<exists>p w'. registry_open modals n newState (run modals cs (init_world modals)) = Inr (p, w') \<and>
           state_modals w' ''current'' = Some (JStr n) \<and>
           read_isCurrent w' n = Inr (JBool True) \<and>
           (\<forall>m\<in>fst ` set modals. m \<noteq> n \<longrightarrow> read_isCurrent w' m = Inr (JBool False))"
proof -
  let ?w = "run modals cs (init_world modals)"
  from assms(2) have reg: "n \<in> fst ` set modals" by (rule registered_name)
  with assms(1) have n: "n \<noteq> ''current''" by blast
  from open_registered_object [OF n assms(2), of cs newState]
  obtain target w' where t: "state_modals ?w n = Some (JObj target)"
    and o: "registry_open modals n newState ?w = Inr (length (promises ?w), w')"
    and s: "state_modals w' = (state_modals ?w)(''current'' \<mapsto> JStr n,
              n \<mapsto> JObj (object_assign target (case newState of None \<Rightarrow> [] | Some fs \<Rightarrow> fs)))"
    by auto
  have c: "state_modals w' ''current'' = Some (JStr n)"
    using n by (simp add: s)
  have self: "read_isCurrent w' n = Inr (JBool True)"
    using n by (simp add: read_isCurrent_def isCurrent_def s)
  have others: "read_isCurrent w' m = Inr (JBool False)"
    if "m \<in> fst ` set modals" and "m \<noteq> n" for m
  proof -
    from that(1) assms(1) have m: "m \<noteq> ''current''" by blast
    from sound_reachable that(1) m have "\<exists>fs. state_modals ?w m = Some (JObj fs)"
      by (rule sound_object)
    then obtain fs where "state_modals ?w m = Some (JObj fs)" ..
    with m that(2) show ?thesis
      by (simp add: read_isCurrent_def isCurrent_def s)
  qed
  from o c self others show ?thesis by blast
qed

text \<open>The specification's registry: opening \<open>confirmDelete\<close> while \<open>rename\<close> is open.\<close>

theorem open_sets_current_and_isCurrent_witness:
  "''current'' \<notin> fst ` set spec_modals \<and>
   map_of spec_modals ''confirmDelete'' = Some \<lparr>state = None, result = Some (JBool False)\<rparr> \<and>
   (\<exists>p w'. registry_open spec_modals ''confirmDelete'' None
              (run spec_modals [Open ''rename'' None] (init_world spec_modals)) = Inr (p, w') \<and>
      state_modals w' ''current'' = Some (JStr ''confirmDelete'') \<and>
      read_isCurrent w' ''confirmDelete'' = Inr (JBool True) \<and>
      read_isCurrent w' ''rename'' = Inr (JBool False))"
  using open_sets_current_and_isCurrent
    [of spec_modals "''confirmDelete''" "\<lparr>state = None, result = Some (JBool False)\<rparr>" None
        "[Open ''rename'' None]"]
  by (simp add: spec_modals_def)

text \<open>
  Claim C3 as stated fails for a modal that is named \<open>current\<close>: \<open>open\<close> stores the
  string \<open>current\<close> under the key that also held the modal's sub-state, so afterwards
  \<open>state.modals.current.isCurrent\<close> is a property read on a string, which gives \<open>undefined\<close>
  and not \<open>true\<close>.
\<close>

theorem isCurrent_of_modal_named_current:
  "\<not> isl (registry_open clash_modals ''current'' None (init_world clash_modals)) \<and>
   read_isCurrent (world_after_open
      (registry_open clash_modals ''current'' None (init_world clash_modals))) ''current''
     = Inr JUndefined"
  by (simp add: clash_modals_def eval_defs)

text \<open>
  Claim C4: for a registered name \<open>n\<close> and any world, whatever \<open>current\<close> holds there,
  \<open>close(n)\<close> returns without error and leaves \<open>current\<close> equal to \<open>null\<close>; it never
  compares \<open>n\<close> with the active modal.
\<close>

theorem close_clears_current:
  assumes "map_of modals n = Some modal"
  shows "\<exists>w'. registry_close modals n payload w = Inr w' \<and> state_modals w' ''current'' = Some JNull"
  using assms by (simp add: registry_close_registered close_modal_state)

text \<open>Closing \<open>rename\<close> while \<open>confirmDelete\<close> is the current modal.\<close>

theorem close_clears_current_witness:
  "map_of spec_modals ''rename'' = Some \<lparr>state = Some [(''value'', JStr '''')], result = None\<rparr> \<and>
   (\<exists>w'. registry_close spec_modals ''rename'' JUndefined
            (run spec_modals [Open ''confirmDelete'' None] (init_world spec_modals)) = Inr w' \<and>
         state_modals w' ''current'' = Some JNull) \<and>
   state_modals (run spec_modals [Open ''confirmDelete'' None] (init_world spec_modals)) ''current''
     = Some (JStr ''confirmDelete'')"
  using close_clears_current
    [of spec_modals "''rename''" "\<lparr>state = Some [(''value'', JStr '''')], result = None\<rparr>" JUndefined
        "run spec_modals [Open ''confirmDelete'' None] (init_world spec_modals)"]
  by (simp add: spec_modals_def eval_defs)

text \<open>
  Claim C5, amended: for every registered name \<open>n\<close> other than \<open>current\<close>, in any world
  the registry can reach, the sub-state of \<open>n\<close> is an object and \<open>open(n, newState)\<close> merges
  \<open>newState\<close> into it: a field that \<open>newState\<close> does not mention keeps its value, a field
  that it mentions takes the new value (the last one, should the list repeat a key);
  \<open>close(n)\<close> leaves the sub-state as it is; and \<open>open(n, {a: 1})\<close> followed by
  \<open>open(n, {b: 2})\<close> yields a sub-state with \<open>a = 1\<close> and \<open>b = 2\<close>.
\<close>

theorem open_merges_fields:
  assumes "n \<noteq> ''current''" and "map_of modals n = Some modal"
  shows "(\<exists>fs. state_modals (run modals cs (init_world modals)) n = Some (JObj fs)) \<and>
         (\<forall>k. k \<notin> fst ` set newState \<longrightarrow>
            read_field (dispatch modals (Open n (Some newState)) (run modals cs (init_world modals))) n k
            = read_field (run modals cs (init_world modals)) n k) \<and>
         (\<forall>k. read_field (dispatch modals (Open n (Some newState)) (run modals cs (init_world modals))) n k
            = (case map_of (rev newState) k of
                 Some v \<Rightarrow> Some v
               | None \<Rightarrow> read_field (run modals cs (init_world modals)) n k)) \<and>
         state_modals (dispatch modals (Close n payload) (run modals cs (init_world modals))) n
            = state_modals (run modals cs (init_world modals)) n \<and>
         read_field (run modals (cs @ [Open n (Some [(''a'', JNum 1)]), Open n (Some [(''b'', JNum 2)])])
            (init_world modals)) n ''a'' = Some (JNum 1) \<and>
         read_field (run modals (cs @ [Open n (Some [(''a'', JNum 1)]), Open n (Some [(''b'', JNum 2)])])
            (init_world modals)) n ''b'' = Some (JNum 2)"
proof (intro conjI allI impI)
  from open_registered_object [OF assms, of cs None]
  show "\<exists>fs. state_modals (run modals cs (init_world modals)) n = Some (JObj fs)"
    by blast
next
  fix k assume "k \<notin> fst ` set newState"
  then have "map_of (rev newState) k = None"
    by (simp add: map_of_eq_None_iff)
  then show "read_field (dispatch modals (Open n (Some newState)) (run modals cs (init_world modals))) n k
      = read_field (run modals cs (init_world modals)) n k"
    by (simp del: dispatch.simps add: open_field [OF assms])
next
  fix k
  show "read_field (dispatch modals (Open n (Some newState)) (run modals cs (init_world modals))) n k
      = (case map_of (rev newState) k of
           Some v \<Rightarrow> Some v
         | None \<Rightarrow> read_field (run modals cs (init_world modals)) n k)"
    by (simp del: dispatch.simps add: open_field [OF assms])
next
  show "state_modals (dispatch modals (Close n payload) (run modals cs (init_world modals))) n
      = state_modals (run modals cs (init_world modals)) n"
    using assms(1) by (rule dispatch_close_state)
next
  let ?a = "Open n (Some [(''a'', JNum 1)])" and ?b = "Open n (Some [(''b'', JNum 2)])"
  have split: "run modals (cs @ [?a, ?b]) (init_world modals)
      = dispatch modals ?b (run modals (cs @ [?a]) (init_world modals))"
    using run_snoc [of modals "cs @ [?a]" ?b] by simp
  have first: "read_field (run modals (cs @ [?a]) (init_world modals)) n ''a'' = Some (JNum 1)"
    unfolding run_snoc by (simp del: dispatch.simps add: open_field [OF assms])
  show "read_field (run modals (cs @ [?a, ?b]) (init_world modals)) n ''a'' = Some (JNum 1)"
    unfolding split by (simp del: dispatch.simps add: open_field [OF assms] first)
  show "read_field (run modals (cs @ [?a, ?b]) (init_world modals)) n ''b'' = Some (JNum 2)"
    unfolding split by (simp del: dispatch.simps add: open_field [OF assms])
qed

theorem open_merges_fields_witness:
  "''rename'' \<noteq> ''current'' \<and>
   map_of spec_modals ''rename'' = Some \<lparr>state = Some [(''value'', JStr '''')], result = None\<rparr> \<and>
   read_field (dispatch spec_modals (Open ''rename'' (Some [(''a'', JNum 1)]))
      (run spec_modals [] (init_world spec_modals))) ''rename'' ''value'' = Some (JStr '''') \<and>
   read_field (dispatch spec_modals (Open ''rename'' (Some [(''a'', JNum 1)]))
      (run spec_modals [] (init_world spec_modals))) ''rename'' ''a'' = Some (JNum 1) \<and>
   read_field (run spec_modals ([] @ [Open ''rename'' (Some [(''a'', JNum 1)]),
      Open ''rename'' (Some [(''b'', JNum 2)])]) (init_world spec_modals)) ''rename'' ''a''
     = Some (JNum 1) \<and>
   read_field (run spec_modals ([] @ [Open ''rename'' (Some [(''a'', JNum 1)]),
      Open ''rename'' (Some [(''b'', JNum 2)])]) (init_world spec_modals)) ''rename'' ''b''
     = Some (JNum 2)"
  using open_merges_fields
    [of "''rename''" spec_modals "\<lparr>state = Some [(''value'', JStr '''')], result = None\<rparr>"
        "[]" "[(''a'', JNum 1)]" JUndefined]
  by (simp add: spec_modals_def eval_defs read_field_def)

text \<open>
  Claim C5 as stated fails for a modal that is named \<open>current\<close>: its sub-state object, here
  with the field \<open>x = 1\<close>, is replaced by the string \<open>current\<close> as soon as the modal is
  opened, so the field is lost and nothing is merged.
\<close>

theorem modal_named_current_loses_fields:
  "read_field (init_world clash_modals) ''current'' ''x'' = Some (JNum 1) \<and>
   state_modals (dispatch clash_modals (Open ''current'' (Some [(''a'', JNum 1)]))
      (init_world clash_modals)) ''current'' = Some (JStr ''current'') \<and>
   read_field (dispatch clash_modals (Open ''current'' (Some [(''a'', JNum 1)]))
      (init_world clash_modals)) ''current'' ''x'' = None"
  by (simp add: clash_modals_def eval_defs read_field_def)

text \<open>
  Claim C6: for a registered name \<open>n\<close>, in any world the registry can reach, \<open>open(n)\<close>
  returns a pending promise \<open>p1\<close> whose \<open>resolve\<close> the variable \<open>resolver\<close> of \<open>n\<close> holds. If,
  after any further calls, \<open>p1\<close> is still pending and \<open>open(n)\<close> is called again, the variable
  holds the \<open>resolve\<close> of a new promise \<open>p2\<close>, and \<open>p1\<close> stays pending (neither fulfilled nor
  rejected) after every sequence of \<open>open\<close> and \<open>close\<close> calls.
\<close>

theorem reopen_orphans_first_suspension:
  assumes "map_of modals n = Some modal"
  shows "\<exists>p1 w1.
           registry_open modals n None (run modals cs0 (init_world modals)) = Inr (p1, w1) \<and>
           p1 < length (promises w1) \<and> promises w1 ! p1 = Pending \<and> resolver w1 n = Some p1 \<and>
           (\<forall>cs1. promises (run modals cs1 w1) ! p1 = Pending \<longrightarrow>
              (\<exists>p2 w2.
                 registry_open modals n None (run modals cs1 w1) = Inr (p2, w2) \<and>
                 resolver w2 n = Some p2 \<and> p2 \<noteq> p1 \<and> promises w2 ! p2 = Pending \<and>
                 (\<forall>cs. promises (run modals cs w2) ! p1 = Pending)))"
proof -
  let ?w = "run modals cs0 (init_world modals)"
  let ?p1 = "length (promises ?w)"
  have sw: "sound modals ?w" by (rule sound_reachable)
  have none: "n = ''current'' \<longrightarrow> (None :: fields option) = None" by simp
  from open_returns [OF sw assms none]
  obtain w1 where o1: "registry_open modals n None ?w = Inr (?p1, w1)"
    and r1: "resolver w1 = (resolver ?w)(n \<mapsto> ?p1)"
    and pr1: "promises w1 = promises ?w @ [Pending]"
    by blast
  have "dispatch modals (Open n None) ?w = w1" by (simp add: o1)
  with sound_dispatch [OF sw, of "Open n None"] have sw1: "sound modals w1" by simp
  have held: "held_only_by ?p1 n w1"
    unfolding held_only_by_def
  proof (intro conjI allI impI)
    show "?p1 < length (promises w1)" by (simp add: pr1)
  next
    fix m assume m: "resolver w1 m = Some ?p1"
    show "m = n"
    proof (rule ccontr)
      assume "m \<noteq> n"
      with m have "resolver ?w m = Some ?p1" by (simp add: r1)
      with sw have "?p1 < length (promises ?w)" by (rule sound_resolver)
      then show False by simp
    qed
  qed
  have later: "\<exists>p2 w2.
      registry_open modals n None (run modals cs1 w1) = Inr (p2, w2) \<and>
      resolver w2 n = Some p2 \<and> p2 \<noteq> ?p1 \<and> promises w2 ! p2 = Pending \<and>
      (\<forall>cs. promises (run modals cs w2) ! ?p1 = Pending)"
    if pending: "promises (run modals cs1 w1) ! ?p1 = Pending" for cs1
  proof -
    let ?v = "run modals cs1 w1"
    let ?p2 = "length (promises ?v)"
    from sw1 have sv: "sound modals ?v" by (rule sound_run)
    from held have hv: "held_only_by ?p1 n ?v" by (rule held_only_by_run)
    then have lt: "?p1 < ?p2" by (simp add: held_only_by_def)
    from open_returns [OF sv assms none]
    obtain w2 where o2: "registry_open modals n None ?v = Inr (?p2, w2)"
      and r2: "resolver w2 = (resolver ?v)(n \<mapsto> ?p2)"
      and pr2: "promises w2 = promises ?v @ [Pending]"
      by blast
    have orph: "orphaned ?p1 w2"
      unfolding orphaned_def
    proof (intro conjI allI notI)
      from lt show "?p1 < length (promises w2)" by (simp add: pr2)
    next
      fix m assume m: "resolver w2 m = Some ?p1"
      show False
      proof (cases "m = n")
        case True
        with m lt show False by (simp add: r2)
      next
        case False
        with m have "resolver ?v m = Some ?p1" by (simp add: r2)
        with hv False show False by (simp add: held_only_by_def)
      qed
    qed
    have "promises (run modals cs w2) ! ?p1 = Pending" for cs
      using orphaned_run [OF orph, of modals cs] lt pending by (simp add: pr2 nth_append)
    moreover have "resolver w2 n = Some ?p2" by (simp add: r2)
    moreover have "?p2 \<noteq> ?p1" using lt by simp
    moreover have "promises w2 ! ?p2 = Pending" by (simp add: pr2)
    ultimately show ?thesis using o2 by blast
  qed
  have "promises w1 ! ?p1 = Pending" by (simp add: pr1)
  moreover have "?p1 < length (promises w1)" by (simp add: pr1)
  moreover have "resolver w1 n = Some ?p1" by (simp add: r1)
  ultimately show ?thesis using o1 later by blast
qed

text \<open>Two \<open>open\<close> calls and one \<open>close\<close>: the first promise stays pending, the second one
  is fulfilled.\<close>

theorem reopen_orphans_first_suspension_witness:
  "map_of spec_modals ''confirmDelete'' = Some \<lparr>state = None, result = Some (JBool False)\<rparr> \<and>
   promises (run spec_modals
      [Open ''confirmDelete'' None, Open ''confirmDelete'' None, Close ''confirmDelete'' (JBool True)]
      (init_world spec_modals)) ! 0 = Pending \<and>
   promises (run spec_modals
      [Open ''confirmDelete'' None, Open ''confirmDelete'' None, Close ''confirmDelete'' (JBool True)]
      (init_world spec_modals)) = [Pending, Fulfilled (JBool True)]"
proof -
  let ?D = spec_modals and ?n = "''confirmDelete''"
  have h: "map_of ?D ?n = Some \<lparr>state = None, result = Some (JBool False)\<rparr>"
    by (simp add: spec_modals_def)
  from reopen_orphans_first_suspension [OF h, of "[]"]
  obtain p1 w1 where o1: "registry_open ?D ?n None (run ?D [] (init_world ?D)) = Inr (p1, w1)"
    and pend: "promises w1 ! p1 = Pending"
    and rest: "\<forall>cs1. promises (run ?D cs1 w1) ! p1 = Pending \<longrightarrow>
        (\<exists>p2 w2. registry_open ?D ?n None (run ?D cs1 w1) = Inr (p2, w2) \<and>
           resolver w2 ?n = Some p2 \<and> p2 \<noteq> p1 \<and> promises w2 ! p2 = Pending \<and>
           (\<forall>cs. promises (run ?D cs w2) ! p1 = Pending))"
    by blast
  from pend have "promises (run ?D [] w1) ! p1 = Pending" by simp
  with rest obtain p2 w2 where o2: "registry_open ?D ?n None (run ?D [] w1) = Inr (p2, w2)"
    and stays: "\<forall>cs. promises (run ?D cs w2) ! p1 = Pending"
    by blast
  have "fst (projr (registry_open ?D ?n None (run ?D [] (init_world ?D)))) = 0"
    by (simp add: spec_modals_def eval_defs)
  with o1 have p1: "p1 = 0" by simp
  have split: "run ?D [Open ?n None, Open ?n None, Close ?n (JBool True)] (init_world ?D)
      = run ?D [Close ?n (JBool True)] w2"
    using o1 o2 by simp
  from stays have "promises (run ?D [Close ?n (JBool True)] w2) ! p1 = Pending" ..
  then have first: "promises (run ?D
      [Open ?n None, Open ?n None, Close ?n (JBool True)] (init_world ?D)) ! 0 = Pending"
    unfolding split p1 .
  have e: "promises (run ?D [Open ?n None, Open ?n None, Close ?n (JBool True)] (init_world ?D))
      = [Pending, Fulfilled (JBool True)]"
    by (simp add: spec_modals_def eval_defs)
  from h first e show ?thesis by (intro conjI)
qed

text \<open>
  Claim C7: on the freshly constructed registry, \<open>close(n)\<close> for a registered name \<open>n\<close>
  throws nothing, calls no resolver and settles no promise, and leaves \<open>current\<close> equal to
  \<open>null\<close>.
\<close>

theorem close_on_fresh_registry:
  assumes "map_of modals n = Some modal"
  shows "\<exists>w'. registry_close modals n payload (init_world modals) = Inr w' \<and>
              promises w' = [] \<and> resolver_calls w' = [] \<and>
              state_modals w' ''current'' = Some JNull"
  using assms
  by (simp add: registry_close_registered close_modal_state)
     (simp add: close_modal_def init_world_def)

theorem close_on_fresh_registry_witness:
  "map_of spec_modals ''confirmDelete'' = Some \<lparr>state = None, result = Some (JBool False)\<rparr> \<and>
   (\<exists>w'. registry_close spec_modals ''confirmDelete'' (JBool True) (init_world spec_modals) = Inr w' \<and>
         promises w' = [] \<and> resolver_calls w' = [] \<and>
         state_modals w' ''current'' = Some JNull)"
  using close_on_fresh_registry
    [of spec_modals "''confirmDelete''" "\<lparr>state = None, result = Some (JBool False)\<rparr>" "JBool True"]
  by (simp add: spec_modals_def)

text \<open>
  Claim C8, amended: in a registry that has no modal named \<open>current\<close>, after any sequence of
  \<open>open\<close> and \<open>close\<close> calls (calls on names without an entry throw and change nothing),
  \<open>current\<close> is \<open>null\<close> or the name of a registered modal.
\<close>

theorem current_is_null_or_registered:
  assumes "''current'' \<notin> fst ` set modals"
  shows "state_modals (run modals cs (init_world modals)) ''current'' = Some JNull \<or>
         (\<exists>n\<in>fst ` set modals.
            state_modals (run modals cs (init_world modals)) ''current'' = Some (JStr n))"
  using current_ok_run [OF assms current_ok_init [OF assms], of cs]
  by (simp add: current_ok_def)

text \<open>Opening \<open>confirmDelete\<close> and then a name that has no entry: the second call throws
  and \<open>current\<close> stays \<open>confirmDelete\<close>.\<close>

theorem current_is_null_or_registered_witness:
  "''current'' \<notin> fst ` set spec_modals \<and>
   (state_modals (run spec_modals [Open ''confirmDelete'' None, Open ''nothing'' None]
      (init_world spec_modals)) ''current'' = Some JNull \<or>
    (\<exists>n\<in>fst ` set spec_modals.
       state_modals (run spec_modals [Open ''confirmDelete'' None, Open ''nothing'' None]
         (init_world spec_modals)) ''current'' = Some (JStr n))) \<and>
   state_modals (run spec_modals [Open ''confirmDelete'' None, Open ''nothing'' None]
      (init_world spec_modals)) ''current'' = Some (JStr ''confirmDelete'')"
proof -
  have h: "''current'' \<notin> fst ` set spec_modals"
    by (simp add: spec_modals_def)
  have e: "state_modals (run spec_modals [Open ''confirmDelete'' None, Open ''nothing'' None]
      (init_world spec_modals)) ''current'' = Some (JStr ''confirmDelete'')"
    by (simp add: spec_modals_def eval_defs)
  from h e current_is_null_or_registered
    [OF h, of "[Open ''confirmDelete'' None, Open ''nothing'' None]"]
  show ?thesis by (intro conjI)
qed

text \<open>
  Claim C8 as stated fails for a registry with a modal named \<open>current\<close>:
  \<open>aggr.state[name] = modal.state\<close> overwrites \<open>current: null\<close>, so right after
  construction \<open>current\<close> is that modal's sub-state object, neither \<open>null\<close> nor a name.
\<close>

theorem current_of_registry_with_modal_named_current:
  "state_modals (run clash_modals [] (init_world clash_modals)) ''current''
     = Some (JObj [(''x'', JNum 1)])"
  by (simp add: clash_modals_def eval_defs)

text \<open>
  Claim C9: the variable \<open>resolver\<close> of a registered name \<open>n\<close> is unassigned in the fresh
  registry. After \<open>open(n)\<close> and \<open>close(n, payload1)\<close> it still holds the same \<open>resolve\<close>, so a
  second \<open>close(n, payload2)\<close> calls it again, with \<open>payload2\<close> when that is truthy and
  otherwise with the configured \<open>result\<close> (\<open>undefined\<close> when none is configured); the promise,
  already settled, keeps its value. Once assigned, the variable is never unassigned by any
  sequence of calls.
\<close>

theorem second_close_calls_resolver_again:
  assumes "map_of modals n = Some modal"
  shows "resolver (init_world modals) n = None \<and>
         (\<exists>p w1 w2 w3.
            registry_open modals n None (run modals cs (init_world modals)) = Inr (p, w1) \<and>
            registry_close modals n payload1 w1 = Inr w2 \<and> resolver w2 n = Some p \<and>
            registry_close modals n payload2 w2 = Inr w3 \<and>
            resolver_calls w3 = resolver_calls w2 @ [(p, if truthy payload2 then payload2
                 else (case result modal of None \<Rightarrow> JUndefined | Some v \<Rightarrow> v))] \<and>
            promises w3 = promises w2 \<and> resolver w3 n = Some p \<and>
            (\<forall>cs'. resolver (run modals cs' w1) n \<noteq> None))"
proof
  show "resolver (init_world modals) n = None" by (simp add: init_world_def)
next
  let ?w = "run modals cs (init_world modals)"
  let ?p = "length (promises ?w)"
  have "n = ''current'' \<longrightarrow> (None :: fields option) = None" by simp
  from open_returns [OF sound_reachable assms this, where cs1 = cs]
  obtain w1 where o: "registry_open modals n None ?w = Inr (?p, w1)"
    and r: "resolver w1 = (resolver ?w)(n \<mapsto> ?p)"
    and pr: "promises w1 = promises ?w @ [Pending]"
    by blast
  let ?w2 = "close_modal n modal payload1 w1"
  let ?w3 = "close_modal n modal payload2 ?w2"
  have r1: "resolver w1 n = Some ?p" by (simp add: r)
  then have r2: "resolver ?w2 n = Some ?p" by (simp add: close_modal_resolver)
  then have r3: "resolver ?w3 n = Some ?p" by (simp add: close_modal_resolver)
  have "promises ?w2 ! ?p = Fulfilled (js_or payload1 (modal_result modal))"
    using r1 by (rule close_pending) (simp_all add: pr)
  then have settled: "promises ?w2 ! ?p \<noteq> Pending" by simp
  have calls: "resolver_calls ?w3 = resolver_calls ?w2 @
      [(?p, if truthy payload2 then payload2
            else (case result modal of None \<Rightarrow> JUndefined | Some v \<Rightarrow> v))]"
    using close_modal_calls [OF r2, of modal payload2]
    by (simp add: js_or_def modal_result_def)
  have same: "promises ?w3 = promises ?w2"
    using r2 settled by (rule close_modal_settled)
  have stays: "resolver (run modals cs' w1) n \<noteq> None" for cs'
    by (rule resolver_stays_assigned) (simp add: r1)
  have c1: "registry_close modals n payload1 w1 = Inr ?w2"
    using assms by (rule registry_close_registered)
  have c2: "registry_close modals n payload2 ?w2 = Inr ?w3"
    using assms by (rule registry_close_registered)
  from o c1 r2 c2 calls same r3 stays
  show "\<exists>p w1 w2 w3.
      registry_open modals n None ?w = Inr (p, w1) \<and>
      registry_close modals n payload1 w1 = Inr w2 \<and> resolver w2 n = Some p \<and>
      registry_close modals n payload2 w2 = Inr w3 \<and>
      resolver_calls w3 = resolver_calls w2 @ [(p, if truthy payload2 then payload2
                 else (case result modal of None \<Rightarrow> JUndefined | Some v \<Rightarrow> v))] \<and>
      promises w3 = promises w2 \<and> resolver w3 n = Some p \<and>
      (\<forall>cs'. resolver (run modals cs' w1) n \<noteq> None)"
    by blast
qed

text \<open>The specification's registry: after \<open>open\<close> and \<open>close(true)\<close>, a second close with the
  payload \<open>again\<close> calls the resolver with \<open>again\<close>, and a second close without payload calls
  it with the default result \<open>false\<close>; the promise keeps the value \<open>true\<close>.\<close>

theorem second_close_calls_resolver_again_witness:
  "map_of spec_modals ''confirmDelete'' = Some \<lparr>state = None, result = Some (JBool False)\<rparr> \<and>
   resolver (init_world spec_modals) ''confirmDelete'' = None \<and>
   (\<exists>p w1 w2 w3.
      registry_open spec_modals ''confirmDelete'' None (run spec_modals [] (init_world spec_modals))
        = Inr (p, w1) \<and>
      registry_close spec_modals ''confirmDelete'' (JBool True) w1 = Inr w2 \<and>
      resolver w2 ''confirmDelete'' = Some p \<and>
      registry_close spec_modals ''confirmDelete'' (JStr ''again'') w2 = Inr w3 \<and>
      resolver_calls w3 = resolver_calls w2 @ [(p, JStr ''again'')] \<and>
      promises w3 = promises w2 \<and> resolver w3 ''confirmDelete'' = Some p \<and>
      (\<forall>cs'. resolver (run spec_modals cs' w1) ''confirmDelete'' \<noteq> None)) \<and>
   (\<exists>p w1 w2 w3.
      registry_open spec_modals ''confirmDelete'' None (run spec_modals [] (init_world spec_modals))
        = Inr (p, w1) \<and>
      registry_close spec_modals ''confirmDelete'' (JBool True) w1 = Inr w2 \<and>
      resolver w2 ''confirmDelete'' = Some p \<and>
      registry_close spec_modals ''confirmDelete'' JUndefined w2 = Inr w3 \<and>
      resolver_calls w3 = resolver_calls w2 @ [(p, JBool False)] \<and>
      promises w3 = promises w2 \<and> resolver w3 ''confirmDelete'' = Some p \<and>
      (\<forall>cs'. resolver (run spec_modals cs' w1) ''confirmDelete'' \<noteq> None)) \<and>
   resolver_calls (run spec_modals
      [Open ''confirmDelete'' None, Close ''confirmDelete'' (JBool True),
       Close ''confirmDelete'' (JStr ''again'')] (init_world spec_modals))
     = [(0, JBool True), (0, JStr ''again'')] \<and>
   promises (run spec_modals
      [Open ''confirmDelete'' None, Close ''confirmDelete'' (JBool True),
       Close ''confirmDelete'' (JStr ''again'')] (init_world spec_modals))
     = [Fulfilled (JBool True)] \<and>
   resolver_calls (run spec_modals
      [Open ''confirmDelete'' None, Close ''confirmDelete'' (JBool True),
       Close ''confirmDelete'' JUndefined] (init_world spec_modals))
     = [(0, JBool True), (0, JBool False)]"
proof -
  have h: "map_of spec_modals ''confirmDelete'' = Some \<lparr>state = None, result = Some (JBool False)\<rparr>"
    by (simp add: spec_modals_def)
  have e: "resolver_calls (run spec_modals
      [Open ''confirmDelete'' None, Close ''confirmDelete'' (JBool True),
       Close ''confirmDelete'' (JStr ''again'')] (init_world spec_modals))
     = [(0, JBool True), (0, JStr ''again'')]"
    "promises (run spec_modals
      [Open ''confirmDelete'' None, Close ''confirmDelete'' (JBool True),
       Close ''confirmDelete'' (JStr ''again'')] (init_world spec_modals))
     = [Fulfilled (JBool True)]"
    "resolver_calls (run spec_modals
      [Open ''confirmDelete'' None, Close ''confirmDelete'' (JBool True),
       Close ''confirmDelete'' JUndefined] (init_world spec_modals))
     = [(0, JBool True), (0, JBool False)]"
    by (simp_all add: spec_modals_def eval_defs)
  have i: "resolver (init_world spec_modals) ''confirmDelete'' = None"
    using second_close_calls_resolver_again [OF h, of "[]" "JBool True" "JStr ''again''"]
    by (rule conjunct1)
  have c1: "\<exists>p w1 w2 w3.
      registry_open spec_modals ''confirmDelete'' None (run spec_modals [] (init_world spec_modals))
        = Inr (p, w1) \<and>
      registry_close spec_modals ''confirmDelete'' (JBool True) w1 = Inr w2 \<and>
      resolver w2 ''confirmDelete'' = Some p \<and>
      registry_close spec_modals ''confirmDelete'' (JStr ''again'') w2 = Inr w3 \<and>
      resolver_calls w3 = resolver_calls w2 @ [(p, JStr ''again'')] \<and>
      promises w3 = promises w2 \<and> resolver w3 ''confirmDelete'' = Some p \<and>
      (\<forall>cs'. resolver (run spec_modals cs' w1) ''confirmDelete'' \<noteq> None)"
    using second_close_calls_resolver_again [OF h, of "[]" "JBool True" "JStr ''again''"]
    by simp
  have c2: "\<exists>p w1 w2 w3.
      registry_open spec_modals ''confirmDelete'' None (run spec_modals [] (init_world spec_modals))
        = Inr (p, w1) \<and>
      registry_close spec_modals ''confirmDelete'' (JBool True) w1 = Inr w2 \<and>
      resolver w2 ''confirmDelete'' = Some p \<and>
      registry_close spec_modals ''confirmDelete'' JUndefined w2 = Inr w3 \<and>
      resolver_calls w3 = resolver_calls w2 @ [(p, JBool False)] \<and>
      promises w3 = promises w2 \<and> resolver w3 ''confirmDelete'' = Some p \<and>
      (\<forall>cs'. resolver (run spec_modals cs' w1) ''confirmDelete'' \<noteq> None)"
    using second_close_calls_resolver_again [OF h, of "[]" "JBool True" JUndefined]
    by simp
  from h i c1 c2 e show ?thesis by (intro conjI)
qed

text \<open>
  Claim C10, amended: for every name \<open>m\<close> other than \<open>n\<close> and other than \<open>current\<close>, and in
  any world, neither \<open>open(n, newState)\<close> nor \<open>close(n, payload)\<close> changes what
  \<open>state.modals\<close> stores under \<open>m\<close> or what the variable \<open>resolver\<close> of \<open>m\<close> holds; and in any
  world the registry can reach, the promise that the variable of \<open>m\<close> holds is left as it
  is.
\<close>

theorem other_modals_untouched:
  assumes "m \<noteq> n" and "m \<noteq> ''current''"
  shows "state_modals (dispatch modals (Open n newState) w) m = state_modals w m \<and>
         resolver (dispatch modals (Open n newState) w) m = resolver w m \<and>
         state_modals (dispatch modals (Close n payload) w) m = state_modals w m \<and>
         resolver (dispatch modals (Close n payload) w) m = resolver w m \<and>
         (\<forall>q. resolver (run modals cs (init_world modals)) m = Some q \<longrightarrow>
            promises (dispatch modals (Open n newState) (run modals cs (init_world modals))) ! q
              = promises (run modals cs (init_world modals)) ! q \<and>
            promises (dispatch modals (Close n payload) (run modals cs (init_world modals))) ! q
              = promises (run modals cs (init_world modals)) ! q)"
proof (intro conjI allI impI)
  show "state_modals (dispatch modals (Open n newState) w) m = state_modals w m"
    using assms by (rule dispatch_open_state)
  show "resolver (dispatch modals (Open n newState) w) m = resolver w m"
    using assms(1) by (rule dispatch_open_resolver)
  show "state_modals (dispatch modals (Close n payload) w) m = state_modals w m"
    using assms(2) by (rule dispatch_close_state)
  show "resolver (dispatch modals (Close n payload) w) m = resolver w m"
    by (rule dispatch_close_resolver)
next
  fix q assume q: "resolver (run modals cs (init_world modals)) m = Some q"
  from sound_reachable assms(1) q
  show "promises (dispatch modals (Open n newState) (run modals cs (init_world modals))) ! q
      = promises (run modals cs (init_world modals)) ! q"
    by (rule dispatch_other_promise(1))
  from sound_reachable assms(1) q
  show "promises (dispatch modals (Close n payload) (run modals cs (init_world modals))) ! q
      = promises (run modals cs (init_world modals)) ! q"
    by (rule dispatch_other_promise(2))
qed

text \<open>The specification's registry: while \<open>confirmDelete\<close> is open, opening and closing
  \<open>rename\<close> leaves the sub-state, the variable and the pending promise of \<open>confirmDelete\<close>
  alone.\<close>

theorem other_modals_untouched_witness:
  "''confirmDelete'' \<noteq> ''rename'' \<and> ''confirmDelete'' \<noteq> ''current'' \<and>
   state_modals (dispatch spec_modals (Open ''rename'' (Some [(''value'', JStr ''foo.txt'')]))
      (run spec_modals [Open ''confirmDelete'' None] (init_world spec_modals))) ''confirmDelete''
     = Some (JObj []) \<and>
   resolver (dispatch spec_modals (Open ''rename'' (Some [(''value'', JStr ''foo.txt'')]))
      (run spec_modals [Open ''confirmDelete'' None] (init_world spec_modals))) ''confirmDelete''
     = Some 0 \<and>
   resolver (dispatch spec_modals (Close ''rename'' JUndefined)
      (run spec_modals [Open ''confirmDelete'' None] (init_world spec_modals))) ''confirmDelete''
     = Some 0 \<and>
   promises (dispatch spec_modals (Close ''rename'' JUndefined)
      (run spec_modals [Open ''confirmDelete'' None] (init_world spec_modals))) ! 0 = Pending"
proof -
  let ?w = "run spec_modals [Open ''confirmDelete'' None] (init_world spec_modals)"
  have h1: "''confirmDelete'' \<noteq> ''rename''" and h2: "''confirmDelete'' \<noteq> ''current''"
    by simp_all
  have s: "state_modals ?w ''confirmDelete'' = Some (JObj [])"
    and r: "resolver ?w ''confirmDelete'' = Some 0"
    and p: "promises ?w ! 0 = Pending"
    by (simp_all add: spec_modals_def eval_defs)
  note frame = other_modals_untouched
    [OF h1 h2, of spec_modals "Some [(''value'', JStr ''foo.txt'')]" ?w JUndefined
       "[Open ''confirmDelete'' None]"]
  from frame s have c1: "state_modals (dispatch spec_modals
      (Open ''rename'' (Some [(''value'', JStr ''foo.txt'')])) ?w) ''confirmDelete'' = Some (JObj [])"
    by simp
  from frame r have c2: "resolver (dispatch spec_modals
      (Open ''rename'' (Some [(''value'', JStr ''foo.txt'')])) ?w) ''confirmDelete'' = Some 0"
    by simp
  from frame r have c3: "resolver (dispatch spec_modals (Close ''rename'' JUndefined) ?w)
      ''confirmDelete'' = Some 0"
    by simp
  from frame r have "promises (dispatch spec_modals (Close ''rename'' JUndefined) ?w) ! 0
      = promises ?w ! 0"
    by blast
  with p have c4: "promises (dispatch spec_modals (Close ''rename'' JUndefined) ?w) ! 0 = Pending"
    by simp
  from h1 h2 c1 c2 c3 c4 show ?thesis by (intro conjI)
qed

text \<open>
  Claim C10 as stated fails when the other modal is named \<open>current\<close>: opening \<open>rename\<close>
  assigns \<open>state.modals.current\<close>, which is where the sub-state of the modal \<open>current\<close>
  lives, so that sub-state is replaced by the string \<open>rename\<close>.
\<close>

theorem modal_named_current_is_overwritten_by_other_open:
  "state_modals (init_world clash_modals) ''current'' = Some (JObj [(''x'', JNum 1)]) \<and>
   state_modals (dispatch clash_modals (Open ''rename'' None) (init_world clash_modals)) ''current''
     = Some (JStr ''rename'')"
  by (simp add: clash_modals_def eval_defs)

end
